theory Spec2Isabelle
  imports Complex_Main "HOL-Library.AList" "HOL-Library.Log_Nat"
begin

section \<open>Numbers of the source language\<close>

text \<open>
  The dashboard is TypeScript. Its amounts and balances have type \<open>number\<close>: an IEEE 754
  double. A finite double is modelled by the rational it denotes; the two infinities and
  \<open>NaN\<close> are values of their own. The two zeros are not told apart: no operation of the
  code that is modelled here distinguishes them. Every sum and difference is rounded to
  the nearest double, ties to the even significand.
\<close>

datatype number = Fin rat | PosInf | NegInf | NaN

text \<open>
  \<open>ilog2 x\<close> is the binary exponent of a positive rational, the integer \<open>n\<close> with
  \<open>2 powi n \<le> x < 2 powi (n + 1)\<close>, computed from the bit lengths of numerator and
  denominator.
\<close>

definition ilog2 :: "rat \<Rightarrow> int" where
  "ilog2 x =
     (let (p, q) = quotient_of x; e = bitlen p - bitlen q
      in if 2 powi e \<le> x then e else e - 1)"

definition round_half_even :: "rat \<Rightarrow> int" where
  "round_half_even y =
     (let f = \<lfloor>y\<rfloor>; r = y - of_int f
      in if r < 1 / 2 then f else if 1 / 2 < r then f + 1 else if even f then f else f + 1)"

text \<open>
  Rounding to double precision. The significand has 53 bits, so the unit in the last place
  of \<open>x\<close> is \<open>2 powi e\<close> with \<open>e = ilog2 \<bar>x\<bar> - 52\<close>, and never less than \<open>2 powi - 1074\<close>
  (the subnormal range). The largest double is \<open>(2 ^ 53 - 1) * 2 ^ 971\<close>; a rounded
  significand \<open>m\<close>, which is at most \<open>2 ^ 53\<close>, exceeds it exactly when \<open>971 < e\<close>, or
  \<open>e = 971\<close> and \<open>m = 2 ^ 53\<close>: then the result is an infinity.
\<close>

definition round_double :: "rat \<Rightarrow> number" where
  "round_double x =
     (if x = 0 then Fin 0
      else
        let e = max (ilog2 \<bar>x\<bar> - 52) (- 1074);
            m = round_half_even (\<bar>x\<bar> / 2 powi e)
        in if 971 < e \<or> (e = 971 \<and> 2 ^ 53 \<le> m) then (if 0 < x then PosInf else NegInf)
           else Fin (sgn x * (of_int m * 2 powi e)))"

fun js_add :: "number \<Rightarrow> number \<Rightarrow> number" where
  "js_add (Fin a) (Fin b) = round_double (a + b)"
| "js_add NaN _ = NaN"
| "js_add _ NaN = NaN"
| "js_add PosInf NegInf = NaN"
| "js_add NegInf PosInf = NaN"
| "js_add PosInf _ = PosInf"
| "js_add _ PosInf = PosInf"
| "js_add NegInf _ = NegInf"
| "js_add _ NegInf = NegInf"

fun js_neg :: "number \<Rightarrow> number" where
  "js_neg (Fin a) = Fin (- a)"
| "js_neg PosInf = NegInf"
| "js_neg NegInf = PosInf"
| "js_neg NaN = NaN"

definition js_sub :: "number \<Rightarrow> number \<Rightarrow> number" where
  \<comment> \<open>\<open>x - y\<close> is \<open>x + (- y)\<close> in IEEE arithmetic: negation is exact\<close>
  "js_sub x y = js_add x (js_neg y)"

text \<open>The double that a decimal numeral denotes, as a stored amount such as 186.52 is read.\<close>

definition decimal :: "rat \<Rightarrow> number" where
  "decimal x = round_double x"

text \<open>The sum of a list of numbers in double arithmetic.\<close>

primrec js_sum :: "number list \<Rightarrow> number" where
  "js_sum [] = Fin 0"
| "js_sum (x # xs) = js_add x (js_sum xs)"

text \<open>The rational a finite number denotes (0 for the others), and finiteness.\<close>

fun fin_val :: "number \<Rightarrow> rat" where
  "fin_val (Fin r) = r"
| "fin_val _ = 0"

fun is_fin :: "number \<Rightarrow> bool" where
  "is_fin (Fin r) = True"
| "is_fin _ = False"

section \<open>Objects\<close>

text \<open>
  \<open>balances\<close> is a plain object \<open>{ [key: string]: number }\<close>, modelled by its own
  properties: an association list in insertion order. \<open>map_of b k\<close> is the read
  \<open>balances[k]\<close> (\<open>None\<close> for \<open>undefined\<close>), \<open>AList.update k v b\<close> is the write
  \<open>balances[k] = v\<close>. In arithmetic \<open>undefined\<close> converts to \<open>NaN\<close>. Keys are
  participant identifiers, which are database keys and never the name of a property that
  every object inherits.
\<close>

type_synonym balances = "(string \<times> number) list"

definition to_number :: "number option \<Rightarrow> number" where
  "to_number v = (case v of None \<Rightarrow> NaN | Some n \<Rightarrow> n)"

definition credit :: "string \<Rightarrow> number \<Rightarrow> balances \<Rightarrow> balances" where
  \<comment> \<open>\<open>balances[k] += v\<close>\<close>
  "credit k v b = AList.update k (js_add (to_number (map_of b k)) v) b"

definition debit :: "string \<Rightarrow> number \<Rightarrow> balances \<Rightarrow> balances" where
  \<comment> \<open>\<open>balances[k] -= v\<close>\<close>
  "debit k v b = AList.update k (js_sub (to_number (map_of b k)) v) b"

section \<open>Data model\<close>

text \<open>
  The rows of the tables \<open>participants\<close>, \<open>expense_splits\<close>, \<open>expenses\<close>,
  \<open>group\<close> and \<open>settlements\<close>, with the columns the dashboard reads. A column of type
  \<open>string | null\<close> is an option. An expense comes with its splits
  (\<open>ExpenseWithSplits\<close>) and a group with its participants, a property the code reads
  with \<open>?.\<close> and that may therefore be missing.
\<close>

record participant =
  p_id :: string
  p_name :: "string option"

record split =
  participant_id :: "string option"
  split_amount :: number

record expense =
  paid_by :: string
  amount :: number
  expense_type :: "string option"
  expense_splits :: "split list"

record group =
  g_id :: string
  g_name :: string
  participants :: "participant list option"

record settlement =
  from_participant_id :: string
  to_participant_id :: string
  settlement_amount :: number

text \<open>
  The state of the component \<open>GroupDashboard\<close> that \<open>calculateBalances\<close> closes over:
  \<open>group\<close> is undefined until a group has been loaded. The component holds more state
  (the dialogs that are open, the expense being edited, the loading flag); the record is
  extensible, and \<open>calculateBalances\<close> takes it with any extension.
\<close>

record dashboard =
  group :: "group option"
  expenses :: "expense list"

text \<open>
  What the store holds for one group. The component loads the group and its expenses
  (\<open>fetchGroupData\<close>, \<open>fetchExpenses\<close>); it has no state for settlements and never
  asks for them.
\<close>

record snapshot =
  snap_group :: "group option"
  snap_expenses :: "expense list"
  snap_settlements :: "settlement list"

definition load_dashboard :: "snapshot \<Rightarrow> dashboard" where
  "load_dashboard s = \<lparr>group = snap_group s, expenses = snap_expenses s\<rparr>"

section \<open>calculateBalances\<close>

text \<open>
  \<^verbatim>\<open>
  const calculateBalances = () => {
    const balances: { [key: string]: number } = {};
    if (!group) return balances;
    group.participants?.forEach((p) => { balances[p.id] = 0; });
    expenses.forEach((expense) => {
      balances[expense.paid_by] += expense.amount;
      expense.expense_splits.forEach((split) => {
        if (split.participant_id) {
          balances[split.participant_id] -= split.amount;
        }
      });
    });
    return balances;
  };
  \<close>
  Each \<open>forEach\<close> is a left fold over the object being filled.
\<close>

definition init_balances :: "participant list \<Rightarrow> balances \<Rightarrow> balances" where
  \<comment> \<open>\<open>group.participants?.forEach((p) => { balances[p.id] = 0; })\<close>\<close>
  "init_balances ps b = foldl (\<lambda>acc p. AList.update (p_id p) (Fin 0) acc) b ps"

definition apply_split :: "balances \<Rightarrow> split \<Rightarrow> balances" where
  \<comment> \<open>\<open>if (split.participant_id) { balances[split.participant_id] -= split.amount; }\<close>:
      \<open>null\<close> and the empty string are falsy\<close>
  "apply_split b s =
     (case participant_id s of
        None \<Rightarrow> b
      | Some i \<Rightarrow> if i = [] then b else debit i (split_amount s) b)"

definition apply_expense :: "balances \<Rightarrow> expense \<Rightarrow> balances" where
  \<comment> \<open>the body of \<open>expenses.forEach\<close>: the payer is credited, then the splits are walked\<close>
  "apply_expense b e =
     foldl apply_split (credit (paid_by e) (amount e) b) (expense_splits e)"

definition calculateBalances :: "'a dashboard_scheme \<Rightarrow> balances" where
  "calculateBalances d =
     (case group d of
        None \<Rightarrow> []
      | Some g \<Rightarrow>
          foldl apply_expense
            (case participants g of None \<Rightarrow> [] | Some ps \<Rightarrow> init_balances ps [])
            (expenses d))"

text \<open>
  The balance shown for a participant, \<open>balances[participant.id] || 0\<close>: a value that
  is undefined, \<open>NaN\<close> or zero is replaced by 0.
\<close>

definition displayed_balance :: "balances \<Rightarrow> string \<Rightarrow> number" where
  "displayed_balance b i =
     (case map_of b i of
        None \<Rightarrow> Fin 0
      | Some NaN \<Rightarrow> Fin 0
      | Some (Fin r) \<Rightarrow> if r = 0 then Fin 0 else Fin r
      | Some PosInf \<Rightarrow> PosInf
      | Some NegInf \<Rightarrow> NegInf)"

text \<open>The kind of an entry as the dashboard reads it, \<open>expense.expense_type || 'expense'\<close>.\<close>

definition expenseType :: "expense \<Rightarrow> string" where
  "expenseType e =
     (case expense_type e of None \<Rightarrow> ''expense'' | Some t \<Rightarrow> if t = [] then ''expense'' else t)"

section \<open>Vocabulary of the specification\<close>

text \<open>
  The participant a split debits: the one its \<open>participant_id\<close> names when that is
  truthy, which is the test \<open>calculateBalances\<close> makes. A split whose \<open>participant_id\<close>
  is \<open>null\<close> or empty names nobody.
\<close>

definition split_participant :: "split \<Rightarrow> string option" where
  "split_participant s =
     (case participant_id s of None \<Rightarrow> None | Some i \<Rightarrow> if i = [] then None else Some i)"

text \<open>
  What the ledger does to the balance of one participant, in ledger order: a credit of the
  amount for an entry it paid, then a debit for each split of the entry that names it.
\<close>

datatype event = Credit number | Debit number

fun apply_event :: "number \<Rightarrow> event \<Rightarrow> number" where
  "apply_event v (Credit a) = js_add v a"
| "apply_event v (Debit s) = js_sub v s"

definition split_events :: "string \<Rightarrow> split list \<Rightarrow> event list" where
  "split_events p ss =
     map (\<lambda>s. Debit (split_amount s)) (filter (\<lambda>s. split_participant s = Some p) ss)"

definition entry_events :: "string \<Rightarrow> expense \<Rightarrow> event list" where
  "entry_events p e =
     (if paid_by e = p then [Credit (amount e)] else []) @ split_events p (expense_splits e)"

definition ledger_events :: "string \<Rightarrow> expense list \<Rightarrow> event list" where
  "ledger_events p es = concat (map (entry_events p) es)"

text \<open>
  The sum of what a participant paid minus the sum of its own splits, read in double
  arithmetic and read in exact arithmetic.
\<close>

definition paid_total :: "string \<Rightarrow> expense list \<Rightarrow> number" where
  "paid_total p es = js_sum (map amount (filter (\<lambda>e. paid_by e = p) es))"

definition owed_total :: "string \<Rightarrow> expense list \<Rightarrow> number" where
  "owed_total p es =
     js_sum (map split_amount
       (filter (\<lambda>s. split_participant s = Some p) (concat (map expense_splits es))))"

definition paid_exact :: "string \<Rightarrow> expense list \<Rightarrow> rat" where
  "paid_exact p es = sum_list (map (\<lambda>e. fin_val (amount e)) (filter (\<lambda>e. paid_by e = p) es))"

definition owed_exact :: "string \<Rightarrow> expense list \<Rightarrow> rat" where
  "owed_exact p es =
     sum_list (map (\<lambda>s. fin_val (split_amount s))
       (filter (\<lambda>s. split_participant s = Some p) (concat (map expense_splits es))))"

text \<open>
  The sum of all balances of a mapping, as the exact sum of the finite values it holds,
  and whether all of them are finite.
\<close>

definition balance_sum :: "balances \<Rightarrow> rat" where
  "balance_sum b = sum_list (map (\<lambda>kv. fin_val (snd kv)) b)"

definition all_finite :: "balances \<Rightarrow> bool" where
  "all_finite b = list_all (\<lambda>kv. is_fin (snd kv)) b"

text \<open>
  An entry belongs to the group with participants \<open>P\<close> when its payer is in \<open>P\<close> and
  every one of its splits names a participant in \<open>P\<close>. It is finite when its amount and
  the amounts of its splits are. Its splits sum to its amount when the stored values do,
  exactly; \<open>splits_within tol\<close> allows a difference of at most \<open>tol\<close>.
\<close>

definition entry_in_group :: "participant list \<Rightarrow> expense \<Rightarrow> bool" where
  "entry_in_group P e \<longleftrightarrow>
     paid_by e \<in> p_id ` set P \<and>
     (\<forall>s \<in> set (expense_splits e). \<exists>i. split_participant s = Some i \<and> i \<in> p_id ` set P)"

definition entry_finite :: "expense \<Rightarrow> bool" where
  "entry_finite e \<longleftrightarrow> is_fin (amount e) \<and> list_all (\<lambda>s. is_fin (split_amount s)) (expense_splits e)"

definition splits_sum :: "expense \<Rightarrow> rat" where
  "splits_sum e = sum_list (map (\<lambda>s. fin_val (split_amount s)) (expense_splits e))"

definition splits_sum_to_amount :: "expense \<Rightarrow> bool" where
  "splits_sum_to_amount e \<longleftrightarrow> entry_finite e \<and> splits_sum e = fin_val (amount e)"

definition splits_within :: "rat \<Rightarrow> expense \<Rightarrow> bool" where
  "splits_within tol e \<longleftrightarrow> entry_finite e \<and> \<bar>fin_val (amount e) - splits_sum e\<bar> \<le> tol"

text \<open>
  The size of a ledger: the magnitudes of all its amounts and split amounts added up, and
  the number of additions and subtractions its walk performs.
\<close>

definition splits_volume :: "split list \<Rightarrow> rat" where
  "splits_volume ss = sum_list (map (\<lambda>s. \<bar>fin_val (split_amount s)\<bar>) ss)"

definition entry_volume :: "expense \<Rightarrow> rat" where
  "entry_volume e = \<bar>fin_val (amount e)\<bar> + splits_volume (expense_splits e)"

definition ledger_volume :: "expense list \<Rightarrow> rat" where
  "ledger_volume es = sum_list (map entry_volume es)"

definition ledger_ops :: "expense list \<Rightarrow> nat" where
  "ledger_ops es = sum_list (map (\<lambda>e. Suc (length (expense_splits e))) es)"

text \<open>The ideal change of the sum of all balances: amounts minus splits, entry by entry.\<close>

definition ledger_residue :: "expense list \<Rightarrow> rat" where
  "ledger_residue es = sum_list (map (\<lambda>e. fin_val (amount e) - splits_sum e) es)"

text \<open>
  The largest rounding error of a sum or difference whose magnitude is at most \<open>2 ^ k\<close>:
  one unit in the last place of \<open>2 ^ k\<close>.
\<close>

definition round_err :: "nat \<Rightarrow> rat" where
  "round_err k = 2 powi (int k - 53)"

text \<open>Every value of the mapping is finite and at most \<open>M\<close> in magnitude.\<close>

definition bounded_by :: "rat \<Rightarrow> balances \<Rightarrow> bool" where
  "bounded_by M b \<longleftrightarrow> (\<forall>kv \<in> set b. \<exists>r. snd kv = Fin r \<and> \<bar>r\<bar> \<le> M)"

section \<open>The split calculator\<close>

text \<open>
  Modelled from the spec: the Split Calculator (\<open>computeSplits\<close>) and its errors are not
  among the sources, which hold only the dashboard that reads the stored splits. The
  definitions below follow the specification's section 4.2 and section 7.
\<close>

datatype error = ValidationError | SplitMismatchError | ReferenceError | NotFoundError
  | PersistenceError

definition computeSplits_exact :: "rat \<Rightarrow> (string \<times> rat) list \<Rightarrow> error + split list" where
  \<comment> \<open>Modelled from the spec: each split is the custom amount given; the policy fails when
      their sum differs from the entry amount by more than 0.01\<close>
  "computeSplits_exact amt ps =
     (if \<bar>sum_list (map snd ps) - amt\<bar> > 1 / 100 then Inl SplitMismatchError
      else Inr (map (\<lambda>(p, c). \<lparr>participant_id = Some p, split_amount = Fin c\<rparr>) ps))"

section \<open>Scenarios\<close>

text \<open>A group of three participants, in the order A, B, C.\<close>

definition group_abc :: group where
  "group_abc = \<lparr>g_id = ''g1'', g_name = ''Trip'',
     participants = Some [\<lparr>p_id = ''A'', p_name = Some ''Ann''\<rparr>,
                          \<lparr>p_id = ''B'', p_name = Some ''Bob''\<rparr>,
                          \<lparr>p_id = ''C'', p_name = Some ''Cy''\<rparr>]\<rparr>"

text \<open>An income of 30 recorded by B and split equally between A and B.\<close>

definition income_30 :: expense where
  "income_30 = \<lparr>paid_by = ''B'', amount = Fin 30, expense_type = Some ''income'',
     expense_splits = [\<lparr>participant_id = Some ''A'', split_amount = Fin 15\<rparr>,
                       \<lparr>participant_id = Some ''B'', split_amount = Fin 15\<rparr>]\<rparr>"

definition dash_income :: dashboard where
  "dash_income = \<lparr>group = Some group_abc, expenses = [income_30]\<rparr>"

text \<open>An expense of 100 paid by A, stored with the splits 33.33, 33.33 and 33.34.\<close>

definition dinner_100 :: expense where
  "dinner_100 = \<lparr>paid_by = ''A'', amount = Fin 100, expense_type = Some ''expense'',
     expense_splits = [\<lparr>participant_id = Some ''A'', split_amount = decimal (3333 / 100)\<rparr>,
                       \<lparr>participant_id = Some ''B'', split_amount = decimal (3333 / 100)\<rparr>,
                       \<lparr>participant_id = Some ''C'', split_amount = decimal (3334 / 100)\<rparr>]\<rparr>"

definition dash_two :: dashboard where
  "dash_two = \<lparr>group = Some group_abc, expenses = [dinner_100, income_30]\<rparr>"

definition dash_stored :: dashboard where
  "dash_stored = \<lparr>group = Some group_abc, expenses = [dinner_100]\<rparr>"

text \<open>
  The same expense stored with the odd cent on B, the first participant after the payer:
  33.33, 33.34 and 33.33.
\<close>

definition dinner_rule_100 :: expense where
  "dinner_rule_100 = \<lparr>paid_by = ''A'', amount = Fin 100, expense_type = Some ''expense'',
     expense_splits = [\<lparr>participant_id = Some ''A'', split_amount = decimal (3333 / 100)\<rparr>,
                       \<lparr>participant_id = Some ''B'', split_amount = decimal (3334 / 100)\<rparr>,
                       \<lparr>participant_id = Some ''C'', split_amount = decimal (3333 / 100)\<rparr>]\<rparr>"

definition dash_rule :: dashboard where
  "dash_rule = \<lparr>group = Some group_abc, expenses = [dinner_rule_100]\<rparr>"

text \<open>
  Two expenses paid by A: 186.52, of which its own split is 20.67, and 83.59, of which its
  own split is 19.31; B has the rest.
\<close>

definition shop_186 :: expense where
  "shop_186 = \<lparr>paid_by = ''A'', amount = decimal (18652 / 100), expense_type = Some ''expense'',
     expense_splits = [\<lparr>participant_id = Some ''A'', split_amount = decimal (2067 / 100)\<rparr>,
                       \<lparr>participant_id = Some ''B'', split_amount = decimal (16585 / 100)\<rparr>]\<rparr>"

definition shop_83 :: expense where
  "shop_83 = \<lparr>paid_by = ''A'', amount = decimal (8359 / 100), expense_type = Some ''expense'',
     expense_splits = [\<lparr>participant_id = Some ''A'', split_amount = decimal (1931 / 100)\<rparr>,
                       \<lparr>participant_id = Some ''B'', split_amount = decimal (6428 / 100)\<rparr>]\<rparr>"

definition dash_shops :: dashboard where
  "dash_shops = \<lparr>group = Some group_abc, expenses = [shop_186, shop_83]\<rparr>"

text \<open>
  An expense of \<open>2 ^ 53\<close> paid by A for B, then an expense of 3 paid by A and split 1 for A
  and 2 for B. All these amounts are doubles, and the splits of each entry sum to its
  amount exactly.
\<close>

definition huge_53 :: expense where
  "huge_53 = \<lparr>paid_by = ''A'', amount = Fin (2 ^ 53), expense_type = Some ''expense'',
     expense_splits = [\<lparr>participant_id = Some ''B'', split_amount = Fin (2 ^ 53)\<rparr>]\<rparr>"

definition small_3 :: expense where
  "small_3 = \<lparr>paid_by = ''A'', amount = Fin 3, expense_type = Some ''expense'',
     expense_splits = [\<lparr>participant_id = Some ''A'', split_amount = Fin 1\<rparr>,
                       \<lparr>participant_id = Some ''B'', split_amount = Fin 2\<rparr>]\<rparr>"

definition dash_huge :: dashboard where
  "dash_huge = \<lparr>group = Some group_abc, expenses = [huge_53, small_3]\<rparr>"

text \<open>A transfer of 100 from A to B: the recipient is the participant of its one split.\<close>

definition transfer_100 :: expense where
  "transfer_100 = \<lparr>paid_by = ''A'', amount = Fin 100, expense_type = Some ''transfer'',
     expense_splits = [\<lparr>participant_id = Some ''B'', split_amount = Fin 100\<rparr>]\<rparr>"

definition dash_transfer :: dashboard where
  "dash_transfer = \<lparr>group = Some group_abc, expenses = [transfer_100]\<rparr>"

text \<open>The income of 30 followed by the transfer.\<close>

definition dash_mixed :: dashboard where
  "dash_mixed = \<lparr>group = Some group_abc, expenses = [income_30, transfer_100]\<rparr>"

text \<open>The income above, and a recorded settlement of 15 from A to B.\<close>

definition snap_settled :: snapshot where
  "snap_settled = \<lparr>snap_group = Some group_abc, snap_expenses = [income_30],
     snap_settlements = [\<lparr>from_participant_id = ''A'', to_participant_id = ''B'',
                           settlement_amount = Fin 15\<rparr>]\<rparr>"

text \<open>An expense with a corrupt split: the amount of B's split is \<open>NaN\<close>.\<close>

definition corrupt_10 :: expense where
  "corrupt_10 = \<lparr>paid_by = ''A'', amount = Fin 10, expense_type = Some ''expense'',
     expense_splits = [\<lparr>participant_id = Some ''A'', split_amount = Fin 5\<rparr>,
                       \<lparr>participant_id = Some ''B'', split_amount = NaN\<rparr>]\<rparr>"

definition dash_corrupt :: dashboard where
  "dash_corrupt = \<lparr>group = Some group_abc, expenses = [corrupt_10]\<rparr>"

section \<open>Rounding\<close>

lemma bitlen_powi_bounds:
  assumes "0 < p"
  shows "(2::rat) powi (bitlen p - 1) \<le> of_int p" and "of_int p < (2::rat) powi (bitlen p)"
proof -
  from assms have "bitlen p \<noteq> 0"
    by (simp add: bitlen_eq_zero_iff)
  with bitlen_nonneg[of p] have b: "1 \<le> bitlen p"
    by linarith
  from bitlen_bounds[OF assms]
  have 1: "2 ^ nat (bitlen p - 1) \<le> p" and 2: "p < 2 ^ nat (bitlen p)"
    by simp_all
  from 1 have "(of_int (2 ^ nat (bitlen p - 1)) :: rat) \<le> of_int p"
    by (simp only: of_int_le_iff)
  with b show "(2::rat) powi (bitlen p - 1) \<le> of_int p"
    by (simp add: power_int_nonneg_exp)
  from 2 have "(of_int p :: rat) < of_int (2 ^ nat (bitlen p))"
    by (simp only: of_int_less_iff)
  with b show "of_int p < (2::rat) powi (bitlen p)"
    by (simp add: power_int_nonneg_exp)
qed

lemma ilog2_bounds:
  assumes "0 < x"
  shows "2 powi (ilog2 x) \<le> x \<and> x < 2 powi (ilog2 x + 1)"
proof -
  obtain p q where pq: "quotient_of x = (p, q)" by (cases "quotient_of x")
  then have q: "0 < q" and x: "x = of_int p / of_int q"
    by (simp_all add: quotient_of_denom_pos quotient_of_div)
  with assms have p: "0 < p"
    by (simp add: zero_less_divide_iff)
  define bp bq where "bp = bitlen p" and "bq = bitlen q"
  note p1 = bitlen_powi_bounds(1)[OF p, folded bp_def]
  note p2 = bitlen_powi_bounds(2)[OF p, folded bp_def]
  note q1 = bitlen_powi_bounds(1)[OF q, folded bq_def]
  note q2 = bitlen_powi_bounds(2)[OF q, folded bq_def]
  have pos: "0 < (2::rat) powi n" for n
    by (simp add: zero_less_power_int)
  have qpos: "(0::rat) < of_int q" and ppos: "(0::rat) < of_int p"
    using p q by simp_all
  have "(2::rat) powi (bp - bq - 1) = 2 powi ((bp - 1) - bq)"
    by (simp add: algebra_simps)
  also have "\<dots> = 2 powi (bp - 1) / 2 powi bq"
    by (rule power_int_diff) simp
  also have "\<dots> < 2 powi (bp - 1) / of_int q"
  proof (rule divide_strict_left_mono[OF q2])
    show "0 < (2::rat) powi (bp - 1)"
      by (rule pos)
    show "0 < 2 powi bq * (of_int q :: rat)"
      using pos[of bq] qpos by (rule mult_pos_pos)
  qed
  also have "\<dots> \<le> of_int p / of_int q"
    using p1 qpos by (intro divide_right_mono) simp_all
  finally have lo: "(2::rat) powi (bp - bq - 1) < x"
    by (simp add: x)
  have "x = of_int p / of_int q"
    by (rule x)
  also have "\<dots> < 2 powi bp / of_int q"
    using p2 qpos by (intro divide_strict_right_mono) simp_all
  also have "\<dots> \<le> 2 powi bp / 2 powi (bq - 1)"
  proof (rule divide_left_mono[OF q1])
    show "0 \<le> (2::rat) powi bp"
      using pos[of bp] by simp
    show "0 < of_int q * (2::rat) powi (bq - 1)"
      using qpos pos[of "bq - 1"] by (rule mult_pos_pos)
  qed
  also have "\<dots> = (2::rat) powi (bp - (bq - 1))"
    by (rule power_int_diff[symmetric]) simp
  also have "\<dots> = (2::rat) powi (bp - bq + 1)"
    by (simp add: algebra_simps)
  finally have hi: "x < (2::rat) powi (bp - bq + 1)" .
  show ?thesis
    using lo hi pq by (auto simp: ilog2_def bp_def bq_def Let_def)
qed

lemma round_half_even_err: "\<bar>of_int (round_half_even y) - y\<bar> \<le> 1 / 2"
proof -
  have "of_int \<lfloor>y\<rfloor> \<le> y" and "y < of_int \<lfloor>y\<rfloor> + 1"
    by linarith+
  then show ?thesis
    unfolding round_half_even_def Let_def
    by (auto simp: abs_le_iff)
qed

lemma round_half_even_upper:
  assumes "y \<le> of_int N"
  shows "round_half_even y \<le> N"
proof -
  have f: "\<lfloor>y\<rfloor> \<le> N"
    using assms by (simp add: floor_le_iff)
  show ?thesis
  proof (cases "\<lfloor>y\<rfloor> = N")
    case True
    with assms have "y - of_int \<lfloor>y\<rfloor> \<le> 0"
      by simp
    then have "y - of_int \<lfloor>y\<rfloor> < 1 / 2"
      by linarith
    with True show ?thesis
      by (simp add: round_half_even_def Let_def)
  next
    case False
    with f have "\<lfloor>y\<rfloor> + 1 \<le> N"
      by linarith
    then show ?thesis
      by (simp add: round_half_even_def Let_def)
  qed
qed

lemma round_double_error:
  assumes k: "k \<le> 1023" and x: "\<bar>x\<bar> \<le> 2 ^ k"
  shows "\<exists>y. round_double x = Fin y \<and> \<bar>y - x\<bar> \<le> 2 powi (int k - 53)"
proof (cases "x = 0")
  case True
  have "(0::rat) \<le> 2 powi (int k - 53)"
    by (simp add: zero_le_power_int)
  with True show ?thesis
    by (simp add: round_double_def)
next
  case False
  define L where "L = ilog2 \<bar>x\<bar>"
  define e where "e = max (L - 52) (- 1074)"
  define m where "m = round_half_even (\<bar>x\<bar> / 2 powi e)"
  have pos: "0 < (2::rat) powi n" for n
    by (simp add: zero_less_power_int)
  from False have "0 < \<bar>x\<bar>" by simp
  from ilog2_bounds[OF this] have "2 powi L \<le> \<bar>x\<bar>"
    by (simp add: L_def)
  also from x have "\<bar>x\<bar> \<le> 2 powi (int k)"
    by simp
  finally have "L \<le> int k"
    by (rule power_int_le_imp_le_exp[rotated]) simp_all
  with k have e_le: "e \<le> int k - 52" and e971: "e \<le> 971"
    by (simp_all add: e_def)
  have m_small: "m < 2 ^ 53" if "e = 971"
  proof -
    have "\<bar>x\<bar> / 2 powi e \<le> 2 ^ k / 2 ^ 971"
      using x that by (simp add: divide_right_mono)
    also have "\<dots> \<le> 2 ^ 1023 / (2 ^ 971 :: rat)"
      using k by (intro divide_right_mono power_increasing) simp_all
    also have "\<dots> = of_int (2 ^ 52)"
      by simp
    finally have "m \<le> 2 ^ 52"
      unfolding m_def by (rule round_half_even_upper)
    then show ?thesis by simp
  qed
  define y where "y = sgn x * (of_int m * 2 powi e)"
  have rd: "round_double x = Fin y"
    using False e971 m_small
    by (auto simp add: round_double_def Let_def L_def[symmetric] e_def[symmetric]
        m_def[symmetric] y_def)
  have "x = sgn x * \<bar>x\<bar>"
    by (simp add: sgn_mult_abs)
  then have "y - x = sgn x * (of_int m * 2 powi e - \<bar>x\<bar>)"
    by (simp add: y_def right_diff_distrib)
  then have "\<bar>y - x\<bar> = \<bar>sgn x * (of_int m * 2 powi e - \<bar>x\<bar>)\<bar>"
    by simp
  also have "\<dots> = \<bar>of_int m * 2 powi e - \<bar>x\<bar>\<bar>"
    using False by (simp add: abs_mult abs_sgn_eq)
  also have "\<dots> = \<bar>(of_int m - \<bar>x\<bar> / 2 powi e) * 2 powi e\<bar>"
    using pos[of e] by (simp add: algebra_simps)
  also have "\<dots> = \<bar>of_int m - \<bar>x\<bar> / 2 powi e\<bar> * 2 powi e"
    using pos[of e] by (simp add: abs_mult)
  also have "\<dots> \<le> 1 / 2 * 2 powi e"
    using round_half_even_err[of "\<bar>x\<bar> / 2 powi e"] pos[of e]
    by (intro mult_right_mono) (simp_all add: m_def)
  also have "\<dots> = 2 powi (e - 1)"
    by (simp add: power_int_diff)
  also have "\<dots> \<le> 2 powi (int k - 53)"
    using e_le by (intro power_int_increasing) simp_all
  finally show ?thesis
    using rd by blast
qed

lemma js_add_error:
  assumes "k \<le> 1023" and "\<bar>a + b\<bar> \<le> 2 ^ k"
  shows "\<exists>y. js_add (Fin a) (Fin b) = Fin y \<and> \<bar>y - (a + b)\<bar> \<le> round_err k"
  using round_double_error[OF assms] by (simp add: round_err_def)

lemma js_sub_error:
  assumes "k \<le> 1023" and "\<bar>a - b\<bar> \<le> 2 ^ k"
  shows "\<exists>y. js_sub (Fin a) (Fin b) = Fin y \<and> \<bar>y - (a - b)\<bar> \<le> round_err k"
  using round_double_error[OF assms] by (simp add: js_sub_def round_err_def)

lemma round_err_nonneg: "0 \<le> round_err k"
  by (simp add: round_err_def zero_le_power_int)

lemma js_add_NaN_right [simp]: "js_add v NaN = NaN"
  by (cases v) simp_all

lemma js_sub_NaN_left [simp]: "js_sub NaN v = NaN"
  by (simp add: js_sub_def)

lemma js_sub_NaN_right [simp]: "js_sub v NaN = NaN"
  by (simp add: js_sub_def)

section \<open>Reading and writing one balance\<close>

lemma map_of_credit:
  "map_of (credit k v b) p =
     (if p = k then Some (js_add (to_number (map_of b k)) v) else map_of b p)"
  by (simp add: credit_def update_conv')

lemma map_of_debit:
  "map_of (debit k v b) p =
     (if p = k then Some (js_sub (to_number (map_of b k)) v) else map_of b p)"
  by (simp add: debit_def update_conv')

lemma keys_credit: "fst ` set (credit k v b) = insert k (fst ` set b)"
  by (simp add: credit_def dom_update)

lemma keys_debit: "fst ` set (debit k v b) = insert k (fst ` set b)"
  by (simp add: debit_def dom_update)

lemma apply_split_alt:
  "apply_split b s =
     (case split_participant s of None \<Rightarrow> b | Some i \<Rightarrow> debit i (split_amount s) b)"
  by (simp add: apply_split_def split_participant_def split: option.splits)

lemma map_of_init_balances:
  "map_of (init_balances ps b) k =
     (if k \<in> p_id ` set ps then Some (Fin 0) else map_of b k)"
  unfolding init_balances_def
  by (induction ps arbitrary: b) (auto simp: update_conv')

lemma keys_init_balances:
  "fst ` set (init_balances ps b) = p_id ` set ps \<union> fst ` set b"
  unfolding init_balances_def
  by (induction ps arbitrary: b) (auto simp: dom_update)

lemma keys_apply_splits_mono:
  "k \<in> fst ` set b \<Longrightarrow> k \<in> fst ` set (foldl apply_split b ss)"
  by (induction ss arbitrary: b) (auto simp: apply_split_alt keys_debit split: option.splits)

lemma keys_apply_expenses_mono:
  "k \<in> fst ` set b \<Longrightarrow> k \<in> fst ` set (foldl apply_expense b es)"
proof (induction es arbitrary: b)
  case Nil
  then show ?case by simp
next
  case (Cons e es)
  from Cons.prems have "k \<in> fst ` set (credit (paid_by e) (amount e) b)"
    by (simp add: keys_credit)
  then have "k \<in> fst ` set (apply_expense b e)"
    unfolding apply_expense_def by (rule keys_apply_splits_mono)
  from Cons.IH[OF this] show ?case by simp
qed

section \<open>The balance of one participant\<close>

lemma map_of_apply_splits:
  "map_of b p = Some v \<Longrightarrow>
   map_of (foldl apply_split b ss) p = Some (foldl apply_event v (split_events p ss))"
proof (induction ss arbitrary: b v)
  case Nil
  then show ?case by (simp add: split_events_def)
next
  case (Cons s ss)
  show ?case
  proof (cases "split_participant s = Some p")
    case True
    with Cons.prems have "map_of (apply_split b s) p = Some (js_sub v (split_amount s))"
      by (simp add: apply_split_alt map_of_debit to_number_def)
    from Cons.IH[OF this] True show ?thesis
      by (simp add: split_events_def)
  next
    case False
    with Cons.prems have "map_of (apply_split b s) p = Some v"
      by (auto simp: apply_split_alt map_of_debit split: option.splits)
    from Cons.IH[OF this] False show ?thesis
      by (simp add: split_events_def)
  qed
qed

lemma map_of_apply_expense:
  assumes "map_of b p = Some v"
  shows "map_of (apply_expense b e) p = Some (foldl apply_event v (entry_events p e))"
proof -
  have "map_of (credit (paid_by e) (amount e) b) p =
          Some (if paid_by e = p then js_add v (amount e) else v)"
    using assms by (cases "paid_by e = p") (simp_all add: map_of_credit to_number_def)
  then have "map_of (apply_expense b e) p =
      Some (foldl apply_event (if paid_by e = p then js_add v (amount e) else v)
        (split_events p (expense_splits e)))"
    unfolding apply_expense_def by (rule map_of_apply_splits)
  then show ?thesis
    by (simp add: entry_events_def)
qed

lemma map_of_apply_expenses:
  "map_of b p = Some v \<Longrightarrow>
   map_of (foldl apply_expense b es) p = Some (foldl apply_event v (ledger_events p es))"
proof (induction es arbitrary: b v)
  case Nil
  then show ?case by (simp add: ledger_events_def)
next
  case (Cons e es)
  note step = map_of_apply_expense[OF Cons.prems, of e]
  from Cons.IH[OF step] show ?case
    by (simp add: ledger_events_def)
qed

lemma calculateBalances_events:
  assumes "group d = Some g" and "participants g = Some P" and "p \<in> p_id ` set P"
  shows "map_of (calculateBalances d) p =
           Some (foldl apply_event (Fin 0) (ledger_events p (expenses d)))"
proof -
  have "map_of (init_balances P []) p = Some (Fin 0)"
    using assms(3) by (simp add: map_of_init_balances)
  then have "map_of (foldl apply_expense (init_balances P []) (expenses d)) p =
      Some (foldl apply_event (Fin 0) (ledger_events p (expenses d)))"
    by (rule map_of_apply_expenses)
  then show ?thesis
    using assms(1,2) by (simp add: calculateBalances_def)
qed

lemma apply_expense_ignores_kind:
  "apply_expense b (e\<lparr>expense_type := k\<rparr>) = apply_expense b e"
  by (simp add: apply_expense_def)

lemma calculateBalances_ignores_kind:
  "calculateBalances (d\<lparr>expenses := map (\<lambda>e. e\<lparr>expense_type := k e\<rparr>) (expenses d)\<rparr>) =
   calculateBalances d"
proof -
  have same: "foldl apply_expense b (map (\<lambda>e. e\<lparr>expense_type := k e\<rparr>) es) =
              foldl apply_expense b es" for b es
    by (induction es arbitrary: b) (simp_all add: apply_expense_ignores_kind)
  show ?thesis
    by (simp add: calculateBalances_def same split: option.splits)
qed

section \<open>A balance that is not a number\<close>

lemma nan_events: "foldl apply_event NaN evs = NaN"
proof (induction evs)
  case Nil
  show ?case by simp
next
  case (Cons ev evs)
  then show ?case by (cases ev) simp_all
qed

lemma nan_sticks_splits:
  "map_of b p = Some NaN \<Longrightarrow> map_of (foldl apply_split b ss) p = Some NaN"
  by (drule map_of_apply_splits[where ss = ss]) (simp add: nan_events)

lemma nan_sticks_expenses:
  "map_of b p = Some NaN \<Longrightarrow> map_of (foldl apply_expense b es) p = Some NaN"
  by (drule map_of_apply_expenses[where es = es]) (simp add: nan_events)

lemma nan_split_apply_splits:
  assumes "s \<in> set ss" and "split_participant s = Some p" and "split_amount s = NaN"
  shows "map_of (foldl apply_split b ss) p = Some NaN"
proof -
  from assms(1) obtain xs ys where ss: "ss = xs @ s # ys"
    by (auto dest: split_list)
  have "map_of (apply_split (foldl apply_split b xs) s) p = Some NaN"
    using assms(2,3) by (simp add: apply_split_alt map_of_debit)
  then have "map_of (foldl apply_split (apply_split (foldl apply_split b xs) s) ys) p = Some NaN"
    by (rule nan_sticks_splits)
  then show ?thesis by (simp add: ss)
qed

lemma nan_split_apply_expenses:
  assumes "e \<in> set es" and "s \<in> set (expense_splits e)"
    and "split_participant s = Some p" and "split_amount s = NaN"
  shows "map_of (foldl apply_expense b es) p = Some NaN"
proof -
  from assms(1) obtain xs ys where es: "es = xs @ e # ys"
    by (auto dest: split_list)
  have "map_of (apply_expense (foldl apply_expense b xs) e) p = Some NaN"
    unfolding apply_expense_def using assms(2,3,4) by (rule nan_split_apply_splits)
  then have "map_of (foldl apply_expense (apply_expense (foldl apply_expense b xs) e) ys) p = Some NaN"
    by (rule nan_sticks_expenses)
  then show ?thesis by (simp add: es)
qed

section \<open>The sum of all balances\<close>

text \<open>
  An addition or subtraction whose result stays within \<open>2 ^ k\<close> is off by at most
  \<open>round_err k\<close>. So a credit adds the amount to the sum of all balances, a debit takes
  it away, each up to that error; and a balance grows by at most the amount and the error.
\<close>

lemma set_update_subset: "set (AList.update k v b) \<subseteq> insert (k, v) (set b)"
  by (induction b) auto

lemma bounded_by_update:
  assumes "bounded_by M b" and "\<bar>r\<bar> \<le> M"
  shows "bounded_by M (AList.update k (Fin r) b)"
  unfolding bounded_by_def
proof
  fix kv assume "kv \<in> set (AList.update k (Fin r) b)"
  with set_update_subset[of k "Fin r" b] have "kv = (k, Fin r) \<or> kv \<in> set b"
    by auto
  with assms show "\<exists>r. snd kv = Fin r \<and> \<bar>r\<bar> \<le> M"
    by (auto simp: bounded_by_def)
qed

lemma bounded_by_mono: "bounded_by M b \<Longrightarrow> M \<le> M' \<Longrightarrow> bounded_by M' b"
  unfolding bounded_by_def by (meson order_trans)

lemma bounded_by_lookup:
  assumes "bounded_by M b" and "k \<in> fst ` set b"
  shows "\<exists>r. map_of b k = Some (Fin r) \<and> \<bar>r\<bar> \<le> M"
proof -
  from assms(2) obtain v where v: "map_of b k = Some v"
    by (cases "map_of b k") (simp_all add: map_of_eq_None_iff)
  then have "(k, v) \<in> set b"
    by (rule map_of_SomeD)
  with assms(1) obtain r where "v = Fin r" and "\<bar>r\<bar> \<le> M"
    by (auto simp: bounded_by_def)
  with v show ?thesis by simp
qed

lemma bounded_by_all_finite: "bounded_by M b \<Longrightarrow> all_finite b"
  by (auto simp: bounded_by_def all_finite_def list_all_iff)

lemma balance_sum_update:
  "map_of b k = Some v \<Longrightarrow>
   balance_sum (AList.update k v' b) = balance_sum b - fin_val v + fin_val v'"
  by (induction b) (auto simp: balance_sum_def)

lemma credit_step:
  assumes k: "k \<le> 1023" and b: "bounded_by M b" and key: "i \<in> fst ` set b"
    and mag: "M + \<bar>a\<bar> \<le> 2 ^ k"
  shows "bounded_by (M + \<bar>a\<bar> + round_err k) (credit i (Fin a) b) \<and>
         \<bar>balance_sum (credit i (Fin a) b) - (balance_sum b + a)\<bar> \<le> round_err k"
proof -
  from bounded_by_lookup[OF b key] obtain r where r: "map_of b i = Some (Fin r)" "\<bar>r\<bar> \<le> M"
    by blast
  with mag have "\<bar>r + a\<bar> \<le> 2 ^ k"
    by linarith
  from js_add_error[OF k this] obtain y
    where y: "js_add (Fin r) (Fin a) = Fin y" "\<bar>y - (r + a)\<bar> \<le> round_err k"
    by blast
  have cr: "credit i (Fin a) b = AList.update i (Fin y) b"
    using y(1) by (simp add: credit_def r(1) to_number_def)
  from y(2) r(2) have ym: "\<bar>y\<bar> \<le> M + \<bar>a\<bar> + round_err k"
    by linarith
  from round_err_nonneg[of k] have "M \<le> M + \<bar>a\<bar> + round_err k"
    by linarith
  with b have "bounded_by (M + \<bar>a\<bar> + round_err k) b"
    by (rule bounded_by_mono)
  then have 1: "bounded_by (M + \<bar>a\<bar> + round_err k) (credit i (Fin a) b)"
    unfolding cr using ym by (rule bounded_by_update)
  have "balance_sum (credit i (Fin a) b) = balance_sum b - r + y"
    unfolding cr using balance_sum_update[OF r(1), of "Fin y"] by simp
  with y(2) have 2: "\<bar>balance_sum (credit i (Fin a) b) - (balance_sum b + a)\<bar> \<le> round_err k"
    by (simp add: algebra_simps)
  from 1 2 show ?thesis ..
qed

lemma debit_step:
  assumes k: "k \<le> 1023" and b: "bounded_by M b" and key: "i \<in> fst ` set b"
    and mag: "M + \<bar>a\<bar> \<le> 2 ^ k"
  shows "bounded_by (M + \<bar>a\<bar> + round_err k) (debit i (Fin a) b) \<and>
         \<bar>balance_sum (debit i (Fin a) b) - (balance_sum b - a)\<bar> \<le> round_err k"
proof -
  from bounded_by_lookup[OF b key] obtain r where r: "map_of b i = Some (Fin r)" "\<bar>r\<bar> \<le> M"
    by blast
  with mag have "\<bar>r - a\<bar> \<le> 2 ^ k"
    by linarith
  from js_sub_error[OF k this] obtain y
    where y: "js_sub (Fin r) (Fin a) = Fin y" "\<bar>y - (r - a)\<bar> \<le> round_err k"
    by blast
  have db: "debit i (Fin a) b = AList.update i (Fin y) b"
    by (simp add: debit_def r(1) to_number_def y(1))
  from y(2) r(2) have ym: "\<bar>y\<bar> \<le> M + \<bar>a\<bar> + round_err k"
    by linarith
  from round_err_nonneg[of k] have "M \<le> M + \<bar>a\<bar> + round_err k"
    by linarith
  with b have "bounded_by (M + \<bar>a\<bar> + round_err k) b"
    by (rule bounded_by_mono)
  then have 1: "bounded_by (M + \<bar>a\<bar> + round_err k) (debit i (Fin a) b)"
    unfolding db using ym by (rule bounded_by_update)
  have "balance_sum (debit i (Fin a) b) = balance_sum b - r + y"
    unfolding db using balance_sum_update[OF r(1), of "Fin y"] by simp
  with y(2) have 2: "\<bar>balance_sum (debit i (Fin a) b) - (balance_sum b - a)\<bar> \<le> round_err k"
    by (simp add: algebra_simps)
  from 1 2 show ?thesis ..
qed

lemma splits_volume_nonneg: "0 \<le> splits_volume ss"
  by (induction ss) (simp_all add: splits_volume_def)

lemma apply_splits_drift:
  assumes "k \<le> 1023" and "bounded_by M b" and "K \<subseteq> fst ` set b"
    and "\<forall>s \<in> set ss. \<exists>i. split_participant s = Some i \<and> i \<in> K"
    and "list_all (\<lambda>s. is_fin (split_amount s)) ss"
    and "M + splits_volume ss + of_nat (length ss) * round_err k \<le> 2 ^ k"
  shows "bounded_by (M + splits_volume ss + of_nat (length ss) * round_err k)
           (foldl apply_split b ss) \<and>
         K \<subseteq> fst ` set (foldl apply_split b ss) \<and>
         \<bar>balance_sum (foldl apply_split b ss) -
            (balance_sum b - sum_list (map (\<lambda>s. fin_val (split_amount s)) ss))\<bar>
           \<le> of_nat (length ss) * round_err k"
  using assms(2-)
proof (induction ss arbitrary: b M)
  case Nil
  then show ?case by (simp add: splits_volume_def)
next
  case (Cons s ss)
  note k = assms(1)
  let ?u = "round_err k"
  have u: "0 \<le> ?u" by (rule round_err_nonneg)
  from Cons.prems(3) obtain i where i: "split_participant s = Some i" "i \<in> K"
    by auto
  from Cons.prems(4) obtain x where x: "split_amount s = Fin x"
    by (cases "split_amount s") simp_all
  have vol: "splits_volume (s # ss) = \<bar>x\<bar> + splits_volume ss"
    by (simp add: splits_volume_def x)
  have n: "of_nat (length (s # ss)) * ?u = ?u + of_nat (length ss) * ?u"
    by (simp add: algebra_simps)
  have nu: "0 \<le> of_nat (length ss) * ?u"
    using u by simp
  from Cons.prems(5) have tot: "M + (\<bar>x\<bar> + splits_volume ss) + (?u + of_nat (length ss) * ?u) \<le> 2 ^ k"
    unfolding vol n .
  from tot splits_volume_nonneg[of ss] u nu
  have mag: "M + \<bar>x\<bar> \<le> 2 ^ k"
    by linarith
  from i Cons.prems(2) have key: "i \<in> fst ` set b"
    by auto
  have step: "apply_split b s = debit i (Fin x) b"
    by (simp add: apply_split_alt i(1) x)
  from debit_step[OF k Cons.prems(1) key mag]
  have 1: "bounded_by (M + \<bar>x\<bar> + ?u) (apply_split b s)"
    and 2: "\<bar>balance_sum (apply_split b s) - (balance_sum b - x)\<bar> \<le> ?u"
    by (simp_all add: step)
  from Cons.prems(2) have 3: "K \<subseteq> fst ` set (apply_split b s)"
    by (auto simp: step keys_debit)
  from Cons.prems(3) have 4: "\<forall>s \<in> set ss. \<exists>i. split_participant s = Some i \<and> i \<in> K"
    by simp
  from Cons.prems(4) have 5: "list_all (\<lambda>s. is_fin (split_amount s)) ss"
    by simp
  from tot have 6: "M + \<bar>x\<bar> + ?u + splits_volume ss + of_nat (length ss) * ?u \<le> 2 ^ k"
    by linarith
  note IH = Cons.IH[OF 1 3 4 5 6]
  have eq: "M + \<bar>x\<bar> + ?u + splits_volume ss + of_nat (length ss) * ?u =
            M + splits_volume (s # ss) + of_nat (length (s # ss)) * ?u"
    unfolding vol n by (simp only: add.assoc add.left_commute)
  from IH have "bounded_by (M + \<bar>x\<bar> + ?u + splits_volume ss + of_nat (length ss) * ?u)
                     (foldl apply_split (apply_split b s) ss)"
    by (rule conjunct1)
  then have a: "bounded_by (M + splits_volume (s # ss) + of_nat (length (s # ss)) * ?u)
                     (foldl apply_split b (s # ss))"
    unfolding eq by simp
  from IH have b': "K \<subseteq> fst ` set (foldl apply_split b (s # ss))"
    by (simp del: of_nat_Suc)
  define S2 where "S2 = balance_sum (foldl apply_split (apply_split b s) ss)"
  define S1 where "S1 = balance_sum (apply_split b s)"
  define R where "R = sum_list (map (\<lambda>s. fin_val (split_amount s)) ss)"
  from IH have 7: "\<bar>S2 - (S1 - R)\<bar> \<le> of_nat (length ss) * ?u"
    by (simp add: S2_def S1_def R_def)
  from 2 have 8: "\<bar>S1 - (balance_sum b - x)\<bar> \<le> ?u"
    by (simp add: S1_def)
  from 7 8 have "\<bar>S2 - (balance_sum b - (x + R))\<bar> \<le> ?u + of_nat (length ss) * ?u"
    by linarith
  then have c: "\<bar>balance_sum (foldl apply_split b (s # ss)) -
            (balance_sum b - sum_list (map (\<lambda>s. fin_val (split_amount s)) (s # ss)))\<bar>
           \<le> of_nat (length (s # ss)) * ?u"
    unfolding n by (simp add: S2_def R_def x)
  from a b' c show ?case by blast
qed

lemma apply_expense_drift:
  assumes k: "k \<le> 1023" and b: "bounded_by M b" and keys: "p_id ` set P \<subseteq> fst ` set b"
    and grp: "entry_in_group P e" and fin: "entry_finite e"
    and mag: "M + entry_volume e + of_nat (Suc (length (expense_splits e))) * round_err k \<le> 2 ^ k"
  shows "bounded_by (M + entry_volume e + of_nat (Suc (length (expense_splits e))) * round_err k)
           (apply_expense b e) \<and>
         p_id ` set P \<subseteq> fst ` set (apply_expense b e) \<and>
         \<bar>balance_sum (apply_expense b e) - (balance_sum b + (fin_val (amount e) - splits_sum e))\<bar>
           \<le> of_nat (Suc (length (expense_splits e))) * round_err k"
proof -
  let ?u = "round_err k" and ?ss = "expense_splits e"
  have u: "0 \<le> ?u" by (rule round_err_nonneg)
  have nu: "0 \<le> of_nat (length ?ss) * ?u"
    using u by simp
  from fin obtain a where a: "amount e = Fin a"
    by (cases "amount e") (simp_all add: entry_finite_def)
  from fin have sfin: "list_all (\<lambda>s. is_fin (split_amount s)) ?ss"
    by (simp add: entry_finite_def)
  from grp have payer: "paid_by e \<in> p_id ` set P"
    and parts: "\<forall>s \<in> set ?ss. \<exists>i. split_participant s = Some i \<and> i \<in> p_id ` set P"
    by (simp_all add: entry_in_group_def)
  have n: "of_nat (Suc (length ?ss)) * ?u = ?u + of_nat (length ?ss) * ?u"
    by (simp add: algebra_simps)
  from mag have tot: "M + (\<bar>a\<bar> + splits_volume ?ss) + (?u + of_nat (length ?ss) * ?u) \<le> 2 ^ k"
    unfolding n by (simp add: entry_volume_def a)
  from tot splits_volume_nonneg[of ?ss] u nu have m1: "M + \<bar>a\<bar> \<le> 2 ^ k"
    by linarith
  from payer keys have key: "paid_by e \<in> fst ` set b"
    by auto
  let ?c = "credit (paid_by e) (Fin a) b"
  from credit_step[OF k b key m1]
  have 1: "bounded_by (M + \<bar>a\<bar> + ?u) ?c"
    and 2: "\<bar>balance_sum ?c - (balance_sum b + a)\<bar> \<le> ?u"
    by simp_all
  from keys have 3: "p_id ` set P \<subseteq> fst ` set ?c"
    by (auto simp: keys_credit)
  from tot have 4: "M + \<bar>a\<bar> + ?u + splits_volume ?ss + of_nat (length ?ss) * ?u \<le> 2 ^ k"
    by linarith
  note W = apply_splits_drift[OF k 1 3 parts sfin 4]
  have ae: "apply_expense b e = foldl apply_split ?c ?ss"
    by (simp add: apply_expense_def a)
  have eq: "M + \<bar>a\<bar> + ?u + splits_volume ?ss + of_nat (length ?ss) * ?u =
            M + entry_volume e + of_nat (Suc (length ?ss)) * ?u"
    unfolding n by (simp add: entry_volume_def a)
  from W have "bounded_by (M + \<bar>a\<bar> + ?u + splits_volume ?ss + of_nat (length ?ss) * ?u)
                 (foldl apply_split ?c ?ss)"
    by (rule conjunct1)
  then have A: "bounded_by (M + entry_volume e + of_nat (Suc (length ?ss)) * ?u) (apply_expense b e)"
    unfolding eq ae .
  from W have B: "p_id ` set P \<subseteq> fst ` set (apply_expense b e)"
    unfolding ae by (simp del: of_nat_Suc)
  define S2 where "S2 = balance_sum (foldl apply_split ?c ?ss)"
  define S1 where "S1 = balance_sum ?c"
  from W have 5: "\<bar>S2 - (S1 - splits_sum e)\<bar> \<le> of_nat (length ?ss) * ?u"
    by (simp add: S2_def S1_def splits_sum_def del: of_nat_Suc)
  from 2 have 6: "\<bar>S1 - (balance_sum b + a)\<bar> \<le> ?u"
    by (simp add: S1_def)
  from 5 6 have "\<bar>S2 - (balance_sum b + (a - splits_sum e))\<bar> \<le> ?u + of_nat (length ?ss) * ?u"
    by linarith
  then have C: "\<bar>balance_sum (apply_expense b e) - (balance_sum b + (fin_val (amount e) - splits_sum e))\<bar>
           \<le> of_nat (Suc (length ?ss)) * ?u"
    unfolding n ae by (simp add: S2_def a)
  from A B C show ?thesis by blast
qed

lemma entry_volume_nonneg: "0 \<le> entry_volume e"
  using splits_volume_nonneg[of "expense_splits e"] by (simp add: entry_volume_def)

lemma ledger_volume_nonneg: "0 \<le> ledger_volume es"
  using entry_volume_nonneg by (induction es) (simp_all add: ledger_volume_def)

lemma apply_expenses_drift:
  assumes "k \<le> 1023" and "bounded_by M b" and "p_id ` set P \<subseteq> fst ` set b"
    and "\<forall>e \<in> set es. entry_in_group P e" and "\<forall>e \<in> set es. entry_finite e"
    and "M + ledger_volume es + of_nat (ledger_ops es) * round_err k \<le> 2 ^ k"
  shows "bounded_by (M + ledger_volume es + of_nat (ledger_ops es) * round_err k)
           (foldl apply_expense b es) \<and>
         \<bar>balance_sum (foldl apply_expense b es) - (balance_sum b + ledger_residue es)\<bar>
           \<le> of_nat (ledger_ops es) * round_err k"
  using assms(2-)
proof (induction es arbitrary: b M)
  case Nil
  then show ?case
    by (simp add: ledger_volume_def ledger_ops_def ledger_residue_def)
next
  case (Cons e es)
  note k = assms(1)
  let ?u = "round_err k" and ?n = "Suc (length (expense_splits e))"
  have u: "0 \<le> ?u" by (rule round_err_nonneg)
  have vol: "ledger_volume (e # es) = entry_volume e + ledger_volume es"
    by (simp add: ledger_volume_def)
  have ops: "of_nat (ledger_ops (e # es)) * ?u = of_nat ?n * ?u + of_nat (ledger_ops es) * ?u"
    by (simp add: ledger_ops_def algebra_simps)
  have res: "ledger_residue (e # es) = (fin_val (amount e) - splits_sum e) + ledger_residue es"
    by (simp add: ledger_residue_def)
  have ou: "0 \<le> of_nat (ledger_ops es) * ?u"
    using u by simp
  from Cons.prems(5)
  have tot: "M + (entry_volume e + ledger_volume es) + (of_nat ?n * ?u + of_nat (ledger_ops es) * ?u) \<le> 2 ^ k"
    unfolding vol ops .
  from tot ledger_volume_nonneg[of es] ou
  have m1: "M + entry_volume e + of_nat ?n * ?u \<le> 2 ^ k"
    by linarith
  from Cons.prems(3,4) have grp: "entry_in_group P e" and fin: "entry_finite e"
    by simp_all
  note E = apply_expense_drift[OF k Cons.prems(1,2) grp fin m1]
  from E have 1: "bounded_by (M + entry_volume e + of_nat ?n * ?u) (apply_expense b e)"
    by (rule conjunct1)
  from E have 2: "p_id ` set P \<subseteq> fst ` set (apply_expense b e)"
    by (simp del: of_nat_Suc)
  from Cons.prems(3,4) have 3: "\<forall>e \<in> set es. entry_in_group P e" and 4: "\<forall>e \<in> set es. entry_finite e"
    by simp_all
  from tot have 5: "M + entry_volume e + of_nat ?n * ?u + ledger_volume es + of_nat (ledger_ops es) * ?u \<le> 2 ^ k"
    by linarith
  note IH = Cons.IH[OF 1 2 3 4 5]
  have eq: "M + entry_volume e + of_nat ?n * ?u + ledger_volume es + of_nat (ledger_ops es) * ?u =
            M + ledger_volume (e # es) + of_nat (ledger_ops (e # es)) * ?u"
    unfolding vol ops by (simp only: add.assoc add.left_commute)
  from IH have "bounded_by (M + entry_volume e + of_nat ?n * ?u + ledger_volume es + of_nat (ledger_ops es) * ?u)
                  (foldl apply_expense (apply_expense b e) es)"
    by (rule conjunct1)
  then have A: "bounded_by (M + ledger_volume (e # es) + of_nat (ledger_ops (e # es)) * ?u)
                  (foldl apply_expense b (e # es))"
    unfolding eq by simp
  define S2 where "S2 = balance_sum (foldl apply_expense (apply_expense b e) es)"
  define S1 where "S1 = balance_sum (apply_expense b e)"
  define r where "r = fin_val (amount e) - splits_sum e"
  from IH have 6: "\<bar>S2 - (S1 + ledger_residue es)\<bar> \<le> of_nat (ledger_ops es) * ?u"
    by (simp add: S2_def S1_def)
  from E have 7: "\<bar>S1 - (balance_sum b + r)\<bar> \<le> of_nat ?n * ?u"
    by (simp add: S1_def r_def del: of_nat_Suc)
  from 6 7 have "\<bar>S2 - (balance_sum b + (r + ledger_residue es))\<bar>
      \<le> of_nat ?n * ?u + of_nat (ledger_ops es) * ?u"
    by linarith
  then have B: "\<bar>balance_sum (foldl apply_expense b (e # es)) - (balance_sum b + ledger_residue (e # es))\<bar>
           \<le> of_nat (ledger_ops (e # es)) * ?u"
    unfolding ops res by (simp add: S2_def r_def)
  from A B show ?case ..
qed

lemma init_balances_bounded: "bounded_by 0 b \<Longrightarrow> bounded_by 0 (init_balances ps b)"
  unfolding init_balances_def
  by (induction ps arbitrary: b) (simp_all add: bounded_by_update)

lemma balance_sum_zero: "bounded_by 0 b \<Longrightarrow> balance_sum b = 0"
  by (induction b) (auto simp: bounded_by_def balance_sum_def)

text \<open>
  The drift of the whole walk: when no balance can leave the range of \<open>2 ^ k\<close>, all
  balances are finite and their sum differs from the ideal one, the sum of amounts minus
  splits, by at most one rounding error for each addition and subtraction.
\<close>

lemma calculateBalances_drift:
  assumes "k \<le> 1023" and "group d = Some g" and "participants g = Some P"
    and "\<forall>e \<in> set (expenses d). entry_in_group P e"
    and "\<forall>e \<in> set (expenses d). entry_finite e"
    and "ledger_volume (expenses d) + of_nat (ledger_ops (expenses d)) * round_err k \<le> 2 ^ k"
  shows "all_finite (calculateBalances d) \<and>
         \<bar>balance_sum (calculateBalances d) - ledger_residue (expenses d)\<bar>
           \<le> of_nat (ledger_ops (expenses d)) * round_err k"
proof -
  have calc: "calculateBalances d = foldl apply_expense (init_balances P []) (expenses d)"
    using assms(2,3) by (simp add: calculateBalances_def)
  have b0: "bounded_by 0 (init_balances P [])"
    by (rule init_balances_bounded) (simp add: bounded_by_def)
  have k0: "p_id ` set P \<subseteq> fst ` set (init_balances P [])"
    by (simp add: keys_init_balances)
  from assms(6) have m: "0 + ledger_volume (expenses d) + of_nat (ledger_ops (expenses d)) * round_err k \<le> 2 ^ k"
    by simp
  note W = apply_expenses_drift[OF assms(1) b0 k0 assms(4,5) m]
  from W have "all_finite (calculateBalances d)"
    unfolding calc by (auto intro: bounded_by_all_finite)
  moreover from W balance_sum_zero[OF b0]
  have "\<bar>balance_sum (calculateBalances d) - ledger_residue (expenses d)\<bar>
           \<le> of_nat (ledger_ops (expenses d)) * round_err k"
    unfolding calc by simp
  ultimately show ?thesis ..
qed

lemma keys_apply_splits_sub:
  "\<forall>s \<in> set ss. \<exists>i. split_participant s = Some i \<and> i \<in> K \<Longrightarrow> fst ` set b \<subseteq> K \<Longrightarrow>
   fst ` set (foldl apply_split b ss) \<subseteq> K"
proof (induction ss arbitrary: b)
  case Nil
  then show ?case by simp
next
  case (Cons s ss)
  from Cons.prems(1) obtain i where i: "split_participant s = Some i" "i \<in> K"
    by auto
  with Cons.prems(2) have "fst ` set (apply_split b s) \<subseteq> K"
    by (simp add: apply_split_alt keys_debit)
  moreover from Cons.prems(1) have "\<forall>s \<in> set ss. \<exists>i. split_participant s = Some i \<and> i \<in> K"
    by simp
  ultimately have "fst ` set (foldl apply_split (apply_split b s) ss) \<subseteq> K"
    by (rule Cons.IH[rotated])
  then show ?case by simp
qed

lemma keys_apply_expenses_sub:
  "\<forall>e \<in> set es. entry_in_group P e \<Longrightarrow> fst ` set b \<subseteq> p_id ` set P \<Longrightarrow>
   fst ` set (foldl apply_expense b es) \<subseteq> p_id ` set P"
proof (induction es arbitrary: b)
  case Nil
  then show ?case by simp
next
  case (Cons e es)
  from Cons.prems(1) have e: "paid_by e \<in> p_id ` set P"
    "\<forall>s \<in> set (expense_splits e). \<exists>i. split_participant s = Some i \<and> i \<in> p_id ` set P"
    by (simp_all add: entry_in_group_def)
  from e(1) Cons.prems(2) have "fst ` set (credit (paid_by e) (amount e) b) \<subseteq> p_id ` set P"
    by (simp add: keys_credit)
  with e(2) have "fst ` set (apply_expense b e) \<subseteq> p_id ` set P"
    unfolding apply_expense_def by (rule keys_apply_splits_sub)
  moreover from Cons.prems(1) have "\<forall>e \<in> set es. entry_in_group P e"
    by simp
  ultimately have "fst ` set (foldl apply_expense (apply_expense b e) es) \<subseteq> p_id ` set P"
    by (rule Cons.IH[rotated])
  then show ?case by simp
qed

lemma distinct_init_balances:
  "distinct (map fst b) \<Longrightarrow> distinct (map fst (init_balances ps b))"
  unfolding init_balances_def
  by (induction ps arbitrary: b) (simp_all add: distinct_update)

lemma distinct_apply_splits:
  "distinct (map fst b) \<Longrightarrow> distinct (map fst (foldl apply_split b ss))"
  by (induction ss arbitrary: b)
     (simp_all add: apply_split_alt debit_def distinct_update split: option.splits)

lemma distinct_apply_expenses:
  "distinct (map fst b) \<Longrightarrow> distinct (map fst (foldl apply_expense b es))"
  by (induction es arbitrary: b)
     (simp_all add: apply_expense_def credit_def distinct_update distinct_apply_splits)

lemma calculateBalances_keys:
  assumes "group d = Some g" and "participants g = Some P"
    and "\<forall>e \<in> set (expenses d). entry_in_group P e"
  shows "distinct (map fst (calculateBalances d)) \<and>
         fst ` set (calculateBalances d) = p_id ` set P"
proof -
  have calc: "calculateBalances d = foldl apply_expense (init_balances P []) (expenses d)"
    using assms(1,2) by (simp add: calculateBalances_def)
  have "distinct (map fst (init_balances P []))"
    by (rule distinct_init_balances) simp
  then have 1: "distinct (map fst (calculateBalances d))"
    unfolding calc by (rule distinct_apply_expenses)
  have keys0: "fst ` set (init_balances P []) = p_id ` set P"
    by (simp add: keys_init_balances)
  have "fst ` set (calculateBalances d) \<subseteq> p_id ` set P"
    unfolding calc using assms(3) keys0 by (intro keys_apply_expenses_sub) simp_all
  moreover have "p_id ` set P \<subseteq> fst ` set (calculateBalances d)"
    unfolding calc using keys0 by (auto intro: keys_apply_expenses_mono)
  ultimately have "fst ` set (calculateBalances d) = p_id ` set P"
    by (rule equalityI)
  with 1 show ?thesis ..
qed

lemma ledger_ops_le:
  "\<forall>e \<in> set es. length (expense_splits e) \<le> n \<Longrightarrow> ledger_ops es \<le> Suc n * length es"
  by (induction es) (simp_all add: ledger_ops_def)

lemma ledger_residue_le:
  "\<forall>e \<in> set es. splits_within tol e \<Longrightarrow> \<bar>ledger_residue es\<bar> \<le> tol * of_nat (length es)"
proof (induction es)
  case Nil
  show ?case by (simp add: ledger_residue_def)
next
  case (Cons e es)
  then have "\<bar>fin_val (amount e) - splits_sum e\<bar> \<le> tol"
    and "\<bar>ledger_residue es\<bar> \<le> tol * of_nat (length es)"
    by (simp_all add: splits_within_def)
  moreover have "ledger_residue (e # es) = (fin_val (amount e) - splits_sum e) + ledger_residue es"
    by (simp add: ledger_residue_def)
  ultimately show ?case
    by (simp add: algebra_simps)
qed

section \<open>The claims\<close>

subsection \<open>C1: conservation\<close>

text \<open>
  Claim C1 says that the balances sum to zero within 0.01 times the number of entries as
  soon as payers and split participants belong to the group and the splits of every entry
  sum to its amount. Additions and subtractions of doubles round. After an expense of
  \<open>2 ^ 53\<close> paid by A for B, the expense of 3 split 1 and 2 leaves A at \<open>2 ^ 53 + 4\<close> and
  B at \<open>- (2 ^ 53 + 2)\<close>: the two entries meet every hypothesis of the claim, and the sum
  of the balances is 2.
\<close>

theorem conservation_counterexample:
  "entry_in_group (the (participants group_abc)) huge_53 \<and>
   entry_in_group (the (participants group_abc)) small_3 \<and>
   splits_sum_to_amount huge_53 \<and> splits_sum_to_amount small_3 \<and>
   decimal (2 ^ 53) = Fin (2 ^ 53) \<and>
   calculateBalances dash_huge =
     [(''A'', Fin (2 ^ 53 + 4)), (''B'', Fin (- (2 ^ 53 + 2))), (''C'', Fin 0)] \<and>
   balance_sum (calculateBalances dash_huge) = 2 \<and>
   \<not> \<bar>balance_sum (calculateBalances dash_huge)\<bar>
       \<le> 1 / 100 * of_nat (length (expenses dash_huge))"
proof -
  have 1: "entry_in_group (the (participants group_abc)) huge_53"
    and 2: "entry_in_group (the (participants group_abc)) small_3"
    by (simp_all add: entry_in_group_def group_abc_def huge_53_def small_3_def
        split_participant_def)
  have 3: "splits_sum_to_amount huge_53" and 4: "splits_sum_to_amount small_3"
    by (simp_all add: splits_sum_to_amount_def entry_finite_def splits_sum_def huge_53_def
        small_3_def)
  have 5: "decimal (2 ^ 53) = Fin (2 ^ 53)"
    by code_simp
  have 6: "calculateBalances dash_huge =
     [(''A'', Fin (2 ^ 53 + 4)), (''B'', Fin (- (2 ^ 53 + 2))), (''C'', Fin 0)]"
    by code_simp
  have 7: "balance_sum (calculateBalances dash_huge) = 2"
    unfolding 6 by (simp add: balance_sum_def)
  have 8: "\<not> \<bar>balance_sum (calculateBalances dash_huge)\<bar>
       \<le> 1 / 100 * of_nat (length (expenses dash_huge))"
    unfolding 7 by (simp add: dash_huge_def)
  from 1 2 3 4 5 6 7 8 show ?thesis by blast
qed

text \<open>
  Claim C1, amended. With a group loaded and a ledger of at most \<open>2 ^ 32\<close> entries, each
  of at most 31 splits, in which every payer and split participant belongs to the group,
  all amounts are finite, the magnitudes of all amounts and split amounts add up to at
  most \<open>2 ^ 39\<close>, and the splits of every entry sum to its amount within 0.005: the
  returned mapping has exactly one entry per participant, all balances are finite, and
  their sum is within 0.01 times the number of entries of zero.
\<close>

theorem calculateBalances_conservation:
  assumes "group d = Some g" and "participants g = Some P"
    and "\<forall>e \<in> set (expenses d).
           entry_in_group P e \<and> splits_within (1 / 200) e \<and> length (expense_splits e) \<le> 31"
    and "ledger_volume (expenses d) \<le> 2 ^ 39" and "length (expenses d) \<le> 2 ^ 32"
  shows "distinct (map fst (calculateBalances d)) \<and>
         fst ` set (calculateBalances d) = p_id ` set P \<and>
         all_finite (calculateBalances d) \<and>
         \<bar>balance_sum (calculateBalances d)\<bar> \<le> 1 / 100 * of_nat (length (expenses d))"
proof -
  let ?es = "expenses d"
  define n :: rat where "n = of_nat (length ?es)"
  define ops :: rat where "ops = of_nat (ledger_ops ?es)"
  from assms(3) have grp: "\<forall>e \<in> set ?es. entry_in_group P e"
    and tol: "\<forall>e \<in> set ?es. splits_within (1 / 200) e"
    and len: "\<forall>e \<in> set ?es. length (expense_splits e) \<le> 31"
    by simp_all
  from tol have fin: "\<forall>e \<in> set ?es. entry_finite e"
    by (simp add: splits_within_def)
  have u: "round_err 40 = 1 / 8192"
    by (simp add: round_err_def power_int_minus_divide)
  from ledger_ops_le[OF len] have "ledger_ops ?es \<le> 32 * length ?es"
    by simp
  then have "(of_nat (ledger_ops ?es) :: rat) \<le> of_nat (32 * length ?es)"
    by (simp only: of_nat_le_iff)
  then have ops_le: "ops \<le> 32 * n"
    by (simp add: ops_def n_def)
  from assms(5) have "(of_nat (length ?es) :: rat) \<le> of_nat (2 ^ 32)"
    by (simp only: of_nat_le_iff)
  then have n_le: "n \<le> 2 ^ 32"
    by (simp add: n_def)
  have n0: "0 \<le> n"
    by (simp add: n_def)
  from assms(4) ops_le n_le
  have "ledger_volume ?es + ops * (1 / 8192) \<le> 2 ^ 40"
    by simp
  then have mag: "ledger_volume ?es + of_nat (ledger_ops ?es) * round_err 40 \<le> 2 ^ 40"
    by (simp add: ops_def u)
  have k: "(40::nat) \<le> 1023"
    by simp
  note D = calculateBalances_drift[OF k assms(1,2) grp fin mag]
  from D have af: "all_finite (calculateBalances d)"
    by (rule conjunct1)
  from D have "\<bar>balance_sum (calculateBalances d) - ledger_residue ?es\<bar> \<le> ops * (1 / 8192)"
    by (simp add: ops_def u)
  moreover from ledger_residue_le[OF tol] have "\<bar>ledger_residue ?es\<bar> \<le> 1 / 200 * n"
    by (simp add: n_def)
  ultimately have "\<bar>balance_sum (calculateBalances d)\<bar> \<le> 1 / 100 * n"
    using ops_le n0 by linarith
  with af calculateBalances_keys[OF assms(1,2) grp] show ?thesis
    by (simp add: n_def)
qed

theorem calculateBalances_conservation_witness:
  "fst ` set (calculateBalances dash_two) = {''A'', ''B'', ''C''} \<and>
   all_finite (calculateBalances dash_two) \<and>
   \<bar>balance_sum (calculateBalances dash_two)\<bar> \<le> 1 / 100 * 2"
proof -
  let ?P = "the (participants group_abc)"
  have g: "group dash_two = Some group_abc"
    by (simp add: dash_two_def)
  have P: "participants group_abc = Some ?P"
    by (simp add: group_abc_def)
  have grp: "entry_in_group ?P dinner_100" "entry_in_group ?P income_30"
    by (simp_all add: entry_in_group_def group_abc_def dinner_100_def income_30_def
        split_participant_def)
  have tol: "splits_within (1 / 200) dinner_100" "splits_within (1 / 200) income_30"
    by code_simp+
  have len: "length (expense_splits dinner_100) \<le> 31" "length (expense_splits income_30) \<le> 31"
    by (simp_all add: dinner_100_def income_30_def)
  from grp tol len
  have h: "\<forall>e \<in> set (expenses dash_two).
           entry_in_group ?P e \<and> splits_within (1 / 200) e \<and> length (expense_splits e) \<le> 31"
    by (simp add: dash_two_def)
  have "ledger_volume [dinner_100, income_30] \<le> 2 ^ 39"
    by code_simp
  then have vol: "ledger_volume (expenses dash_two) \<le> 2 ^ 39"
    by (simp add: dash_two_def)
  have n: "length (expenses dash_two) \<le> 2 ^ 32"
    by (simp add: dash_two_def)
  from calculateBalances_conservation[OF g P h vol n] show ?thesis
    by (simp add: dash_two_def group_abc_def insert_commute)
qed

subsection \<open>C2: credit of the payer, debit of the split participants\<close>

text \<open>
  Claim C2 says that the final balance of each participant equals the sum of the amounts
  of the entries it paid minus the sum of the amounts of its own splits. The code adds and
  subtracts in ledger order, and each step rounds. For A, who pays 186.52 with an own
  split of 20.67 and then 83.59 with an own split of 19.31, the balance is the double
  230.13000000000002; the sum paid minus the sum owed is the double 230.13 when each sum
  is taken in double arithmetic, and yet another rational when taken exactly.
\<close>

theorem credit_debit_counterexample:
  "expenseType shop_186 = ''expense'' \<and> expenseType shop_83 = ''expense'' \<and>
   map_of (calculateBalances dash_shops) ''A'' = Some (Fin (8096979548802909 / 2 ^ 45)) \<and>
   js_sub (js_add (Fin 0) (paid_total ''A'' (expenses dash_shops)))
       (owed_total ''A'' (expenses dash_shops)) = Fin (2024244887200727 / 2 ^ 43) \<and>
   paid_exact ''A'' (expenses dash_shops) - owed_exact ''A'' (expenses dash_shops) =
     64775836390423269 / 2 ^ 48 \<and>
   map_of (calculateBalances dash_shops) ''A'' \<noteq>
     Some (js_sub (js_add (Fin 0) (paid_total ''A'' (expenses dash_shops)))
       (owed_total ''A'' (expenses dash_shops))) \<and>
   map_of (calculateBalances dash_shops) ''A'' \<noteq>
     Some (Fin (paid_exact ''A'' (expenses dash_shops) - owed_exact ''A'' (expenses dash_shops)))"
proof -
  have 1: "expenseType shop_186 = ''expense''" and 2: "expenseType shop_83 = ''expense''"
    by (simp_all add: expenseType_def shop_186_def shop_83_def)
  have 3: "map_of (calculateBalances dash_shops) ''A'' = Some (Fin (8096979548802909 / 2 ^ 45))"
    by code_simp
  have 4: "js_sub (js_add (Fin 0) (paid_total ''A'' (expenses dash_shops)))
       (owed_total ''A'' (expenses dash_shops)) = Fin (2024244887200727 / 2 ^ 43)"
    by code_simp
  have 5: "paid_exact ''A'' (expenses dash_shops) - owed_exact ''A'' (expenses dash_shops) =
     64775836390423269 / 2 ^ 48"
    by code_simp
  have 6: "map_of (calculateBalances dash_shops) ''A'' \<noteq>
     Some (js_sub (js_add (Fin 0) (paid_total ''A'' (expenses dash_shops)))
       (owed_total ''A'' (expenses dash_shops)))"
    unfolding 3 4 by simp
  have 7: "map_of (calculateBalances dash_shops) ''A'' \<noteq>
     Some (Fin (paid_exact ''A'' (expenses dash_shops) - owed_exact ''A'' (expenses dash_shops)))"
    unfolding 3 5 by simp
  from 1 2 3 4 5 6 7 show ?thesis by blast
qed

text \<open>
  Claim C2, amended. For a loaded group and entries of kind expense or income, the payer
  of each entry is credited by the entry amount and each split participant is debited by
  the amount of its split, in double arithmetic and in the order of the ledger: the final
  balance of every participant of the group is the result of applying to zero, entry by
  entry, the addition of the amount of each entry it paid and then the subtraction of the
  amount of each of its own splits of that entry.
\<close>

theorem calculateBalances_credit_debit:
  assumes "group d = Some g" and "participants g = Some P" and "p \<in> p_id ` set P"
    and "\<forall>e \<in> set (expenses d). expenseType e = ''expense'' \<or> expenseType e = ''income''"
  shows "map_of (calculateBalances d) p =
           Some (foldl apply_event (Fin 0) (ledger_events p (expenses d)))"
  using assms(1,2,3) by (rule calculateBalances_events)

theorem calculateBalances_credit_debit_witness:
  "ledger_events ''B'' (expenses dash_income) = [Credit (Fin 30), Debit (Fin 15)] \<and>
   map_of (calculateBalances dash_income) ''B'' = Some (js_sub (js_add (Fin 0) (Fin 30)) (Fin 15)) \<and>
   map_of (calculateBalances dash_income) ''B'' = Some (Fin 15)"
proof -
  let ?P = "the (participants group_abc)"
  have g: "group dash_income = Some group_abc"
    by (simp add: dash_income_def)
  have P: "participants group_abc = Some ?P"
    by (simp add: group_abc_def)
  have B: "''B'' \<in> p_id ` set ?P"
    by (simp add: group_abc_def)
  have k: "\<forall>e \<in> set (expenses dash_income). expenseType e = ''expense'' \<or> expenseType e = ''income''"
    by (simp add: dash_income_def income_30_def expenseType_def)
  have ev: "ledger_events ''B'' (expenses dash_income) = [Credit (Fin 30), Debit (Fin 15)]"
    by (simp add: ledger_events_def entry_events_def split_events_def split_participant_def
        dash_income_def income_30_def)
  have v: "js_sub (js_add (Fin 0) (Fin 30)) (Fin 15) = Fin 15"
    by code_simp
  from calculateBalances_credit_debit[OF g P B k] ev v show ?thesis
    by simp
qed

subsection \<open>C3: transfers\<close>

text \<open>
  Claim C3 says that a transfer is kept out of the walk of its splits, and that its
  recipient is credited and its payer debited by the full amount. \<open>calculateBalances\<close>
  never reads the kind of an entry. For a transfer of 100 from A to B it credits the
  payer A with 100 and debits the recipient B, the participant of the split, by 100:
  the opposite of what the claim says.
\<close>

theorem transfer_counterexample:
  "expenseType transfer_100 = ''transfer'' \<and>
   calculateBalances dash_transfer = [(''A'', Fin 100), (''B'', Fin (- 100)), (''C'', Fin 0)] \<and>
   map_of (calculateBalances dash_transfer) ''A'' \<noteq> Some (js_sub (Fin 0) (amount transfer_100)) \<and>
   map_of (calculateBalances dash_transfer) ''B'' \<noteq> Some (js_add (Fin 0) (amount transfer_100))"
proof -
  have 1: "expenseType transfer_100 = ''transfer''"
    by (simp add: expenseType_def transfer_100_def)
  have 2: "calculateBalances dash_transfer = [(''A'', Fin 100), (''B'', Fin (- 100)), (''C'', Fin 0)]"
    by code_simp
  have 3: "js_sub (Fin 0) (amount transfer_100) = Fin (- 100)"
    and 4: "js_add (Fin 0) (amount transfer_100) = Fin 100"
    by code_simp+
  from 1 2 show ?thesis
    unfolding 3 4 by simp
qed

text \<open>
  Claim C3, amended. An entry of kind transfer is walked like every other entry, wherever
  it stands in the ledger: its payer is credited by the full amount and each participant
  its splits name is debited by the amount of the split, between what the entries before
  it and the entries after it do to the same balance; and the kinds of the entries have no
  influence on any balance.
\<close>

theorem transfer_walked_like_any_entry:
  assumes "group d = Some g" and "participants g = Some P" and "p \<in> p_id ` set P"
    and "expenses d = xs @ e # ys" and "expenseType e = ''transfer''"
  shows "map_of (calculateBalances d) p =
           Some (foldl apply_event
                  (foldl apply_event (foldl apply_event (Fin 0) (ledger_events p xs))
                     (entry_events p e))
                  (ledger_events p ys)) \<and>
         calculateBalances (d\<lparr>expenses := map (\<lambda>x. x\<lparr>expense_type := k x\<rparr>) (expenses d)\<rparr>) =
           calculateBalances d"
proof -
  have "ledger_events p (xs @ e # ys) = ledger_events p xs @ entry_events p e @ ledger_events p ys"
    by (simp add: ledger_events_def)
  with calculateBalances_events[OF assms(1,2,3)] assms(4)
  have "map_of (calculateBalances d) p =
           Some (foldl apply_event
                  (foldl apply_event (foldl apply_event (Fin 0) (ledger_events p xs))
                     (entry_events p e))
                  (ledger_events p ys))"
    by simp
  then show ?thesis
    using calculateBalances_ignores_kind[where d = d and k = k] by simp
qed

theorem transfer_walked_like_any_entry_witness:
  "expenseType transfer_100 = ''transfer'' \<and>
   ledger_events ''A'' [income_30] = [Debit (Fin 15)] \<and>
   entry_events ''A'' transfer_100 = [Credit (Fin 100)] \<and>
   map_of (calculateBalances dash_mixed) ''A'' = Some (js_add (js_sub (Fin 0) (Fin 15)) (Fin 100)) \<and>
   map_of (calculateBalances dash_mixed) ''A'' = Some (Fin 85)"
proof -
  let ?P = "the (participants group_abc)"
  have g: "group dash_mixed = Some group_abc"
    by (simp add: dash_mixed_def)
  have P: "participants group_abc = Some ?P"
    by (simp add: group_abc_def)
  have A: "''A'' \<in> p_id ` set ?P"
    by (simp add: group_abc_def)
  have es: "expenses dash_mixed = [income_30] @ transfer_100 # []"
    by (simp add: dash_mixed_def)
  have t: "expenseType transfer_100 = ''transfer''"
    by (simp add: transfer_100_def expenseType_def)
  have e1: "ledger_events ''A'' [income_30] = [Debit (Fin 15)]"
    by (simp add: ledger_events_def entry_events_def split_events_def split_participant_def
        income_30_def)
  have e2: "entry_events ''A'' transfer_100 = [Credit (Fin 100)]"
    by (simp add: entry_events_def split_events_def split_participant_def transfer_100_def)
  have e3: "ledger_events ''A'' [] = []"
    by (simp add: ledger_events_def)
  have v: "js_add (js_sub (Fin 0) (Fin 15)) (Fin 100) = Fin 85"
    by code_simp
  from transfer_walked_like_any_entry[OF g P A es t, THEN conjunct1]
  have "map_of (calculateBalances dash_mixed) ''A'' = Some (js_add (js_sub (Fin 0) (Fin 15)) (Fin 100))"
    unfolding e1 e2 e3 by simp
  with t e1 e2 v show ?thesis by simp
qed

subsection \<open>C4: settlements\<close>

text \<open>
  Claim C4 says that every recorded settlement is debited from its from-participant and
  credited to its to-participant. \<open>calculateBalances\<close> reads the group and the expenses
  only. With the income of 30 and a settlement of 15 from A to B in the store, the
  balances are those of the income alone, A at -15 and B at 15.
\<close>

theorem settlement_counterexample:
  "calculateBalances (load_dashboard snap_settled) =
     [(''A'', Fin (- 15)), (''B'', Fin 15), (''C'', Fin 0)] \<and>
   map_of (calculateBalances (load_dashboard snap_settled)) ''A'' \<noteq> Some (js_sub (Fin (- 15)) (Fin 15)) \<and>
   map_of (calculateBalances (load_dashboard snap_settled)) ''B'' \<noteq> Some (js_add (Fin 15) (Fin 15))"
  by code_simp

text \<open>
  Claim C4, amended. The balances do not depend on the recorded settlements: whatever
  settlements the store holds, the result is the one computed from the group and its
  expenses.
\<close>

theorem settlements_not_read:
  "calculateBalances (load_dashboard (s\<lparr>snap_settlements := ss\<rparr>)) =
   calculateBalances (load_dashboard s)"
  by (simp add: load_dashboard_def)

subsection \<open>C5: a balance that is not a number\<close>

text \<open>
  Claim C5 says that a \<open>NaN\<close> balance caused by a corrupt split reaches the caller as a
  \<open>ValidationError\<close> and is never turned into zero. \<open>calculateBalances\<close> has no error
  to return: for the expense whose split for B has the amount \<open>NaN\<close> it returns the
  mapping with B at \<open>NaN\<close>, and the dashboard shows that balance as 0.
\<close>

theorem nan_counterexample:
  "calculateBalances dash_corrupt = [(''A'', Fin 5), (''B'', NaN), (''C'', Fin 0)] \<and>
   displayed_balance (calculateBalances dash_corrupt) ''B'' = Fin 0"
  by code_simp

text \<open>
  Claim C5, amended. With a group loaded, when a split that names a participant has the
  amount \<open>NaN\<close>, \<open>calculateBalances\<close> returns a mapping in which the balance of that
  participant is \<open>NaN\<close>, and the balance shown for it is 0.
\<close>

theorem nan_split_not_reported:
  assumes "group d = Some g" and "e \<in> set (expenses d)" and "s \<in> set (expense_splits e)"
    and "split_participant s = Some p" and "split_amount s = NaN"
  shows "map_of (calculateBalances d) p = Some NaN \<and>
         displayed_balance (calculateBalances d) p = Fin 0"
proof -
  have "map_of (calculateBalances d) p = Some NaN"
    using assms(1) nan_split_apply_expenses[OF assms(2-5)]
    by (simp add: calculateBalances_def)
  then show ?thesis by (simp add: displayed_balance_def)
qed

theorem nan_split_not_reported_witness:
  "map_of (calculateBalances dash_corrupt) ''B'' = Some NaN \<and>
   displayed_balance (calculateBalances dash_corrupt) ''B'' = Fin 0"
proof -
  let ?s = "\<lparr>participant_id = Some ''B'', split_amount = NaN\<rparr>"
  have g: "group dash_corrupt = Some group_abc"
    by (simp add: dash_corrupt_def)
  have e: "corrupt_10 \<in> set (expenses dash_corrupt)"
    by (simp add: dash_corrupt_def)
  have s: "?s \<in> set (expense_splits corrupt_10)"
    by (simp add: corrupt_10_def)
  have p: "split_participant ?s = Some ''B''"
    by (simp add: split_participant_def)
  have n: "split_amount ?s = NaN"
    by simp
  show ?thesis
    by (rule nan_split_not_reported[OF g e s p n])
qed

subsection \<open>C6: the scenario of an equal split of 100\<close>

text \<open>
  Claim C6 gives, for participants A, B, C and one expense of 100 paid by A and split
  equally, the balances A = 66.67, B = -33.33, C = -33.34, and says that the remainder
  unit goes to the first participant after the payer. That participant is B. With the
  splits stored so, 33.33 for A, 33.34 for B and 33.33 for C, \<open>calculateBalances\<close> leaves
  B at -33.34 and C at -33.33, which are not the balances of the claim.
\<close>

theorem equal_split_counterexample:
  "calculateBalances dash_rule =
     [(''A'', decimal (6667 / 100)), (''B'', js_neg (decimal (3334 / 100))),
      (''C'', js_neg (decimal (3333 / 100)))] \<and>
   calculateBalances dash_rule \<noteq>
     [(''A'', decimal (6667 / 100)), (''B'', js_neg (decimal (3333 / 100))),
      (''C'', js_neg (decimal (3334 / 100)))]"
  by code_simp

text \<open>
  Claim C6, amended. For three participants A, B, C in input order and one expense of 100
  paid by A whose stored splits are 33.33 for A, 33.33 for B and 33.34 for C, the balances
  are A = 66.67, B = -33.33, C = -33.34, and they sum to 0: the remainder unit is where
  the stored splits put it, here on the last participant.
\<close>

theorem equal_split_stored:
  "calculateBalances dash_stored =
     [(''A'', decimal (6667 / 100)), (''B'', js_neg (decimal (3333 / 100))),
      (''C'', js_neg (decimal (3334 / 100)))] \<and>
   balance_sum (calculateBalances dash_stored) = 0"
  by code_simp

subsection \<open>C8: exact amounts that do not add up\<close>

text \<open>
  Claim C8. Under the exact-amount policy the split fails with \<open>SplitMismatchError\<close>
  exactly when the sum of the custom amounts differs from the entry amount by more than
  0.01; an entry of 50 with the custom amounts 20 and 35 is rejected with that error.
\<close>

theorem computeSplits_exact_mismatch:
  "(computeSplits_exact amt ps = Inl SplitMismatchError \<longleftrightarrow>
      \<bar>sum_list (map snd ps) - amt\<bar> > 1 / 100) \<and>
   computeSplits_exact 50 [(''A'', 20), (''B'', 35)] = Inl SplitMismatchError"
  by (simp add: computeSplits_exact_def)

theorem computeSplits_exact_mismatch_witness:
  "computeSplits_exact 50 [(''A'', 20), (''B'', 30)] \<noteq> Inl SplitMismatchError \<and>
   computeSplits_exact 50 [(''A'', 20), (''B'', 30001 / 1000)] \<noteq> Inl SplitMismatchError \<and>
   computeSplits_exact 50 [(''A'', 20), (''B'', 3002 / 100)] = Inl SplitMismatchError"
  using computeSplits_exact_mismatch[of 50 "[(''A'', 20), (''B'', 30)]"]
    computeSplits_exact_mismatch[of 50 "[(''A'', 20), (''B'', 30001 / 1000)]"]
    computeSplits_exact_mismatch[of 50 "[(''A'', 20), (''B'', 3002 / 100)]"]
  by simp

subsection \<open>C10: every participant has a balance\<close>

text \<open>
  Claim C10. With a group loaded whose participant list is \<open>P\<close>, the returned mapping has
  an entry for every participant in \<open>P\<close>; before any entry is processed that entry is 0,
  and it is still exactly 0 at the end for a participant that no expense names as payer
  and no split names. With no group loaded the result is the empty mapping.
\<close>

theorem calculateBalances_initialised:
  "(group d = None \<longrightarrow> calculateBalances d = []) \<and>
   (group d = Some g \<and> participants g = Some P \<and> p \<in> set P \<longrightarrow>
      p_id p \<in> fst ` set (calculateBalances d) \<and>
      map_of (calculateBalances (d\<lparr>expenses := []\<rparr>)) (p_id p) = Some (Fin 0) \<and>
      ((\<forall>e \<in> set (expenses d). paid_by e \<noteq> p_id p \<and>
           (\<forall>s \<in> set (expense_splits e). participant_id s \<noteq> Some (p_id p))) \<longrightarrow>
         map_of (calculateBalances d) (p_id p) = Some (Fin 0)))"
proof (intro conjI impI)
  show "calculateBalances d = []" if "group d = None"
    using that by (simp add: calculateBalances_def)
next
  assume a: "group d = Some g \<and> participants g = Some P \<and> p \<in> set P"
  then have calc: "calculateBalances d = foldl apply_expense (init_balances P []) (expenses d)"
    by (simp add: calculateBalances_def)
  from a have init: "map_of (init_balances P []) (p_id p) = Some (Fin 0)"
    by (simp add: map_of_init_balances)
  from a have "p_id p \<in> fst ` set (init_balances P [])"
    by (simp add: keys_init_balances)
  then show "p_id p \<in> fst ` set (calculateBalances d)"
    unfolding calc by (rule keys_apply_expenses_mono)
  from a init show "map_of (calculateBalances (d\<lparr>expenses := []\<rparr>)) (p_id p) = Some (Fin 0)"
    by (simp add: calculateBalances_def)
  assume un: "\<forall>e \<in> set (expenses d). paid_by e \<noteq> p_id p \<and>
           (\<forall>s \<in> set (expense_splits e). participant_id s \<noteq> Some (p_id p))"
  have "entry_events (p_id p) e = []" if "e \<in> set (expenses d)" for e
  proof -
    from un that have "paid_by e \<noteq> p_id p"
      and "\<forall>s \<in> set (expense_splits e). participant_id s \<noteq> Some (p_id p)"
      by simp_all
    then show ?thesis
      by (auto simp: entry_events_def split_events_def filter_empty_conv split_participant_def
          split: option.splits if_splits)
  qed
  then have "ledger_events (p_id p) (expenses d) = []"
    by (simp add: ledger_events_def)
  with map_of_apply_expenses[OF init, of "expenses d"]
  show "map_of (calculateBalances d) (p_id p) = Some (Fin 0)"
    by (simp add: calc)
qed

theorem calculateBalances_initialised_witness:
  "\<lparr>p_id = ''C'', p_name = Some ''Cy''\<rparr> \<in> set (the (participants group_abc)) \<and>
   ''C'' \<in> fst ` set (calculateBalances dash_income) \<and>
   map_of (calculateBalances dash_income) ''C'' = Some (Fin 0) \<and>
   calculateBalances \<lparr>group = None, expenses = [income_30]\<rparr> = []"
proof -
  let ?c = "\<lparr>p_id = ''C'', p_name = Some ''Cy''\<rparr>"
  let ?P = "the (participants group_abc)"
  have h: "group dash_income = Some group_abc \<and> participants group_abc = Some ?P \<and> ?c \<in> set ?P"
    by (simp add: dash_income_def group_abc_def)
  have un: "\<forall>e \<in> set (expenses dash_income). paid_by e \<noteq> p_id ?c \<and>
           (\<forall>s \<in> set (expense_splits e). participant_id s \<noteq> Some (p_id ?c))"
    by (simp add: dash_income_def income_30_def)
  have n: "group \<lparr>group = None, expenses = [income_30]\<rparr> = None"
    by simp
  note t = calculateBalances_initialised[of dash_income group_abc ?P ?c, THEN conjunct2, THEN mp, OF h]
  note 1 = t[THEN conjunct1]
  note 2 = t[THEN conjunct2, THEN conjunct2, THEN mp, OF un]
  have 3: "calculateBalances \<lparr>group = None, expenses = [income_30]\<rparr> = []"
    by (rule calculateBalances_initialised[of "\<lparr>group = None, expenses = [income_30]\<rparr>", THEN conjunct1, THEN mp, OF n])
  from h 1 2 3 show ?thesis by simp
qed

end
